theory Spec2Isabelle
  imports Main "HOL-Library.Word"
begin

section \<open>The data model of the cold redundancy engine\<close>

text \<open>
  The daemon keeps a fleet of power supplies (the static vector \<open>powerSupplies\<close>) and
  the redundancy policy (the properties of the \<open>PowerSupplyRedundancy\<close> interface). A
  rank (\<open>order\<close>) is a \<open>uint8_t\<close>: it is an 8-bit word here, so that \<open>order++\<close> and
  the \<open>uint8_t\<close> loop counters wrap as they do in C++. Diagnostics written to
  \<open>std::cerr\<close> and the fire-and-forget \<open>saveProperty\<close> calls change nothing the engine
  reads and are left out.

  Modelled from the spec: the enumerations \<open>PSUState\<close>, \<open>Algo\<close> and \<open>Status\<close> are
  declared in headers that are not among the sources. Their values are the ones the
  source names, which are the ones the specification lists.
\<close>

type_synonym u8 = "8 word"
type_synonym u32 = "32 word"

datatype PSUState = normal | acLost

datatype Algo = bmcSpecific | userSpecific

datatype Status = completed | inProgress

record PowerSupply =
  name :: string
  bus :: u8
  address :: u8
  order :: u8
  state :: PSUState

section \<open>The register access layer\<close>

text \<open>
  Modelled from the spec: \<open>i2cSet\<close> and \<open>i2cGet\<close> are declared in \<open>utility.hpp\<close>,
  which is not among the sources. What the hardware answers is therefore a parameter:
  \<open>replies hw n\<close> is the answer to the \<open>n\<close>-th call made on the bus, whatever the call
  is. \<open>ret\<close> is the returned code (non-zero: failure); \<open>readback\<close> is what \<open>i2cGet\<close>
  stores through its \<open>int&\<close> argument (\<open>None\<close>: it leaves the variable alone). \<open>calls\<close>
  lists the calls made so far, oldest first. Every call of the source passes the same
  register, \<open>pmbusCmdCRSupport\<close>, which is not recorded.
\<close>

datatype i2c_call = I2cSet u8 u8 u8 | I2cGet u8 u8

record i2c_reply =
  ret :: int
  readback :: "int option"

record pmbus =
  replies :: "nat \<Rightarrow> i2c_reply"
  calls :: "i2c_call list"

definition i2cSet :: "u8 \<Rightarrow> u8 \<Rightarrow> u8 \<Rightarrow> pmbus \<Rightarrow> int \<times> pmbus" where
  "i2cSet b a v hw =
     (ret (replies hw (length (calls hw))), hw\<lparr>calls := calls hw @ [I2cSet b a v]\<rparr>)"

definition i2cGet :: "u8 \<Rightarrow> u8 \<Rightarrow> int \<Rightarrow> pmbus \<Rightarrow> int \<times> int \<times> pmbus" where
  "i2cGet b a val hw =
     (let r = replies hw (length (calls hw))
      in (ret r, (case readback r of None \<Rightarrow> val | Some v \<Rightarrow> v),
          hw\<lparr>calls := calls hw @ [I2cGet b a]\<rparr>))"

definition retryCount :: int where
  "retryCount = 3"

text \<open>
  One pass through the body of the \<open>do ... while\<close> of \<open>writePmbus\<close>: both \<open>continue\<close>
  statements jump to the loop condition, so the pass returns the value \<open>tmpValue\<close> holds
  when the condition is evaluated.
\<close>

definition writePmbus_body :: "u8 \<Rightarrow> u8 \<Rightarrow> u8 \<Rightarrow> int \<Rightarrow> pmbus \<Rightarrow> int \<times> pmbus" where
  "writePmbus_body b slaveAddr val tmpValue hw =
     (case i2cSet b slaveAddr val hw of
        (r, hw1) \<Rightarrow>
          if r \<noteq> 0 then (tmpValue, hw1)
          else (case i2cGet b slaveAddr tmpValue hw1 of
                  (r2, tmpValue', hw2) \<Rightarrow> (tmpValue', hw2)))"

function writePmbus_loop :: "u8 \<Rightarrow> u8 \<Rightarrow> u8 \<Rightarrow> int \<Rightarrow> int \<Rightarrow> pmbus \<Rightarrow> pmbus" where
  "writePmbus_loop b slaveAddr val i tmpValue hw =
     (if i < retryCount \<and> fst (writePmbus_body b slaveAddr val tmpValue hw) \<noteq> uint val
      then writePmbus_loop b slaveAddr val (i + 1)
             (fst (writePmbus_body b slaveAddr val tmpValue hw))
             (snd (writePmbus_body b slaveAddr val tmpValue hw))
      else snd (writePmbus_body b slaveAddr val tmpValue hw))"
  by pat_completeness auto
termination
  by (relation "measure (\<lambda>(b, slaveAddr, val, i, tmpValue, hw). nat (retryCount - i))") auto

declare writePmbus_loop.simps [simp del]

definition writePmbus :: "u8 \<Rightarrow> u8 \<Rightarrow> u8 \<Rightarrow> pmbus \<Rightarrow> pmbus" where
  "writePmbus b slaveAddr val hw = writePmbus_loop b slaveAddr val 0 (- 1) hw"

text \<open>
  The wording of the specification, for comparison with the loop above: up to \<open>n\<close>
  write-then-verify attempts, the sequence ending as soon as the value read back is
  the value written.
\<close>

fun spec_attempts :: "nat \<Rightarrow> u8 \<Rightarrow> u8 \<Rightarrow> u8 \<Rightarrow> int \<Rightarrow> pmbus \<Rightarrow> pmbus" where
  "spec_attempts 0 b slaveAddr val tmpValue hw = hw"
| "spec_attempts (Suc n) b slaveAddr val tmpValue hw =
     (if fst (writePmbus_body b slaveAddr val tmpValue hw) = uint val
      then snd (writePmbus_body b slaveAddr val tmpValue hw)
      else spec_attempts n b slaveAddr val
             (fst (writePmbus_body b slaveAddr val tmpValue hw))
             (snd (writePmbus_body b slaveAddr val tmpValue hw)))"

fun is_I2cSet :: "i2c_call \<Rightarrow> bool" where
  "is_I2cSet (I2cSet b a v) = True"
| "is_I2cSet (I2cGet b a) = False"

definition writes_issued :: "pmbus \<Rightarrow> nat" where
  "writes_issued hw = length (filter is_I2cSet (calls hw))"

section \<open>The engine\<close>

text \<open>
  The members of \<open>ColdRedundancy\<close> that the modelled functions read or write, with the
  fleet and the bus. \<open>crSupported\<close>, \<open>numberOfPSU\<close> and the property accessors are
  declared in \<open>cold_redundancy.hpp\<close>; they are fields here.

  \<open>warmRedundantTimer\<close> holds the completion handler waiting on the settle timer, if
  any. Both entry points call \<open>expires_after\<close> before \<open>async_wait\<close>, which cancels a
  wait still pending: its handler is then run later by the event loop with
  \<open>operation_aborted\<close>, and stands in \<open>cancelled\<close> until it is. The handlers of the
  other three timers return at once when they are cancelled, so for them only the
  armed delay is kept (in seconds).

  \<open>psuPreviousWorkable\<close> is the \<open>static\<close> local of the health classifier: \<open>None\<close>
  until the handler runs for the first time, when it is initialised from
  \<open>numberOfPSU\<close>.
\<close>

datatype settle = configCR_settle bool | rotateCR_settle

datatype error_code = success | operation_aborted | timer_error

record ColdRedundancy =
  crSupported :: bool
  numberOfPSU :: u8
  powerSupplyRedundancyEnabled :: bool
  rotationEnabled :: bool
  periodOfRotation :: u32
  rotationAlgorithm :: Algo
  rotationRankOrder :: "u8 list"
  coldRedundancyStatus :: Status
  redundantCount :: u8
  powerSupplies :: "PowerSupply list"
  psuPreviousWorkable :: "u8 option"
  hardware :: pmbus
  warmRedundantTimer :: "settle option"
  cancelled :: "settle list"
  timerRotation :: "u32 option"
  timerCheck :: "nat option"
  puRedundantTimer :: "nat option"

subsection \<open>Re-ranking\<close>

text \<open>
  The loop of the \<open>bmcSpecific\<close> branch of \<open>reRanking\<close>, with its three locals: the
  next rank \<open>index\<close> and the position \<open>psuNumber\<close> (both \<open>uint8_t\<close>) and the copy
  \<open>orders\<close> of the rank order. It returns the fleet and \<open>orders\<close>.
\<close>

fun reRanking_loop ::
  "u8 \<Rightarrow> u8 \<Rightarrow> u8 list \<Rightarrow> PowerSupply list \<Rightarrow> PowerSupply list \<times> u8 list" where
  "reRanking_loop index psuNumber orders [] = ([], orders)"
| "reRanking_loop index psuNumber orders (psu # rest) =
     (let psu' = (if state psu = normal then psu\<lparr>order := index\<rparr> else psu\<lparr>order := 0\<rparr>);
          index' = (if state psu = normal then index + 1 else index);
          (rest', orders') =
            (if unat psuNumber < length orders
             then reRanking_loop index' (psuNumber + 1)
                    (orders[unat psuNumber := order psu']) rest
             else reRanking_loop index' psuNumber orders rest)
      in (psu' # rest', orders'))"

function reRanking :: "ColdRedundancy \<Rightarrow> ColdRedundancy" where
  "reRanking cr =
     (if rotationAlgorithm cr = bmcSpecific
      then (case reRanking_loop 1 0 (rotationRankOrder cr) (powerSupplies cr) of
              (psus, orders) \<Rightarrow> cr\<lparr>powerSupplies := psus, rotationRankOrder := orders\<rparr>)
      else if list_ex (\<lambda>psu. state psu = acLost) (powerSupplies cr)
      then reRanking (cr\<lparr>rotationAlgorithm := bmcSpecific\<rparr>)
      else cr)"
  by pat_completeness auto
termination
  by (relation "measure (\<lambda>cr. if rotationAlgorithm cr = bmcSpecific then 0 else 1)") auto

declare reRanking.simps [simp del]

text \<open>The number of times \<open>reRanking\<close> is entered, the outermost call included.\<close>

function reRanking_calls :: "ColdRedundancy \<Rightarrow> nat" where
  "reRanking_calls cr =
     (if rotationAlgorithm cr = bmcSpecific then 1
      else if list_ex (\<lambda>psu. state psu = acLost) (powerSupplies cr)
      then 1 + reRanking_calls (cr\<lparr>rotationAlgorithm := bmcSpecific\<rparr>)
      else 1)"
  by pat_completeness auto
termination
  by (relation "measure (\<lambda>cr. if rotationAlgorithm cr = bmcSpecific then 0 else 1)") auto

declare reRanking_calls.simps [simp del]

definition normalPSUs :: "PowerSupply list \<Rightarrow> PowerSupply list" where
  "normalPSUs psus = filter (\<lambda>psu. state psu = normal) psus"

subsection \<open>Reconfigure and Rotate\<close>

definition startRotateCR :: "ColdRedundancy \<Rightarrow> ColdRedundancy" where
  "startRotateCR cr = cr\<lparr>timerRotation := Some (periodOfRotation cr)\<rparr>"

definition startCRCheck :: "ColdRedundancy \<Rightarrow> ColdRedundancy" where
  "startCRCheck cr = cr\<lparr>timerCheck := Some 60\<rparr>"

definition putWarmRedundant :: "ColdRedundancy \<Rightarrow> ColdRedundancy" where
  "putWarmRedundant cr =
     (if \<not> crSupported cr then cr
      else cr\<lparr>hardware :=
             fold (\<lambda>psu hw. if state psu = normal
                             then writePmbus (bus psu) (address psu) 0 hw else hw)
               (powerSupplies cr) (hardware cr)\<rparr>)"

text \<open>
  \<open>warmRedundantTimer.expires_after(5 s)\<close> followed by \<open>async_wait(h)\<close>: a wait still
  pending is cancelled, then \<open>h\<close> waits.
\<close>

definition armWarmRedundantTimer :: "settle \<Rightarrow> ColdRedundancy \<Rightarrow> ColdRedundancy" where
  "armWarmRedundantTimer h cr =
     cr\<lparr>cancelled := cancelled cr @ (case warmRedundantTimer cr of None \<Rightarrow> [] | Some h' \<Rightarrow> [h']),
        warmRedundantTimer := Some h\<rparr>"

definition configCR :: "bool \<Rightarrow> ColdRedundancy \<Rightarrow> ColdRedundancy" where
  "configCR reConfig cr =
     (if \<not> crSupported cr \<or> \<not> powerSupplyRedundancyEnabled cr
         \<or> coldRedundancyStatus cr = inProgress
      then cr
      else armWarmRedundantTimer (configCR_settle reConfig)
             (putWarmRedundant
               ((startCRCheck (startRotateCR (cr\<lparr>timerRotation := None, timerCheck := None\<rparr>)))
                  \<lparr>coldRedundancyStatus := inProgress\<rparr>)))"

definition rotateCR :: "ColdRedundancy \<Rightarrow> ColdRedundancy" where
  "rotateCR cr =
     (if \<not> crSupported cr \<or> \<not> powerSupplyRedundancyEnabled cr
         \<or> coldRedundancyStatus cr = inProgress
      then cr
      else armWarmRedundantTimer rotateCR_settle
             (putWarmRedundant (cr\<lparr>coldRedundancyStatus := inProgress\<rparr>)))"

text \<open>The completion handler that \<open>configCR\<close> passes to \<open>async_wait\<close>.\<close>

definition configCR_handler :: "bool \<Rightarrow> error_code \<Rightarrow> ColdRedundancy \<Rightarrow> ColdRedundancy" where
  "configCR_handler reConfig ec cr =
     (if ec = operation_aborted then cr\<lparr>coldRedundancyStatus := completed\<rparr>
      else if ec \<noteq> success then cr\<lparr>coldRedundancyStatus := completed\<rparr>
      else (let cr1 = (if reConfig then reRanking cr else cr)
            in cr1\<lparr>hardware :=
                     fold (\<lambda>psu hw. if state psu = normal \<and> order psu \<noteq> 0
                                     then writePmbus (bus psu) (address psu) (order psu) hw
                                     else hw)
                       (powerSupplies cr1) (hardware cr1),
                   coldRedundancyStatus := completed\<rparr>))"

text \<open>
  The second loop of the handler of \<open>rotateCR\<close>. \<open>rotateCR_order\<close> is what it does to
  the rank of a supply that takes part: \<open>order\<close> is a \<open>uint8_t\<close> and \<open>goodPSUCount\<close> an
  \<open>int\<close>, so the comparison is made on the unsigned value of the incremented (and
  possibly wrapped) rank.
\<close>

definition rotateCR_order :: "int \<Rightarrow> PowerSupply \<Rightarrow> PowerSupply" where
  "rotateCR_order goodPSUCount psu =
     (let psu1 = psu\<lparr>order := order psu + 1\<rparr>
      in if uint (order psu1) > goodPSUCount then psu1\<lparr>order := 1\<rparr> else psu1)"

fun rotateCR_loop :: "int \<Rightarrow> PowerSupply list \<Rightarrow> pmbus \<Rightarrow> PowerSupply list \<times> pmbus" where
  "rotateCR_loop goodPSUCount [] hw = ([], hw)"
| "rotateCR_loop goodPSUCount (psu # rest) hw =
     (if order psu = 0
      then (case rotateCR_loop goodPSUCount rest hw of (rest', hw') \<Rightarrow> (psu # rest', hw'))
      else (let psu' = rotateCR_order goodPSUCount psu
            in case rotateCR_loop goodPSUCount rest
                      (writePmbus (bus psu') (address psu') (order psu') hw) of
                 (rest', hw') \<Rightarrow> (psu' # rest', hw')))"

definition rotateCR_handler :: "error_code \<Rightarrow> ColdRedundancy \<Rightarrow> ColdRedundancy" where
  "rotateCR_handler ec cr =
     (if ec = operation_aborted then cr\<lparr>coldRedundancyStatus := completed\<rparr>
      else if ec \<noteq> success then cr\<lparr>coldRedundancyStatus := completed\<rparr>
      else (let goodPSUCount =
                  fold (\<lambda>psu n. if state psu = normal then n + 1 else n) (powerSupplies cr) (0::int)
            in case rotateCR_loop goodPSUCount (powerSupplies cr) (hardware cr) of
                 (psus, hw) \<Rightarrow>
                   cr\<lparr>powerSupplies := psus, hardware := hw,
                      rotationRankOrder := map order psus,
                      coldRedundancyStatus := completed\<rparr>))"

fun settle_handler :: "settle \<Rightarrow> error_code \<Rightarrow> ColdRedundancy \<Rightarrow> ColdRedundancy" where
  "settle_handler (configCR_settle reConfig) ec cr = configCR_handler reConfig ec cr"
| "settle_handler rotateCR_settle ec cr = rotateCR_handler ec cr"

text \<open>
  The operations in progress: the settle continuations that have been started and
  have not run yet, waiting on the timer or cancelled and queued.
\<close>

definition outstanding :: "ColdRedundancy \<Rightarrow> settle list" where
  "outstanding cr =
     (case warmRedundantTimer cr of None \<Rightarrow> [] | Some h \<Rightarrow> [h]) @ cancelled cr"

text \<open>
  The states the engine can be in. The constructor sets the status to \<open>completed\<close>
  with no wait pending. After that the status and the settle timer are touched by
  \<open>configCR\<close>, \<open>rotateCR\<close> and their handlers only; whatever else runs (discovery,
  notifications, the other timers, the hardware) changes the other fields at most.
\<close>

inductive reachable :: "ColdRedundancy \<Rightarrow> bool" where
  constructed:
    "coldRedundancyStatus cr = completed \<Longrightarrow> warmRedundantTimer cr = None \<Longrightarrow>
     cancelled cr = [] \<Longrightarrow> reachable cr"
| request_configCR:
    "reachable cr \<Longrightarrow> reachable (configCR reConfig cr)"
| request_rotateCR:
    "reachable cr \<Longrightarrow> reachable (rotateCR cr)"
| timer_completes:
    "reachable cr \<Longrightarrow> warmRedundantTimer cr = Some h \<Longrightarrow> ec \<noteq> operation_aborted \<Longrightarrow>
     reachable (settle_handler h ec (cr\<lparr>warmRedundantTimer := None\<rparr>))"
| cancelled_runs:
    "reachable cr \<Longrightarrow> cancelled cr = h # hs \<Longrightarrow>
     reachable (settle_handler h operation_aborted (cr\<lparr>cancelled := hs\<rparr>))"
| elsewhere:
    "reachable cr \<Longrightarrow> coldRedundancyStatus cr' = coldRedundancyStatus cr \<Longrightarrow>
     warmRedundantTimer cr' = warmRedundantTimer cr \<Longrightarrow> cancelled cr' = cancelled cr \<Longrightarrow>
     reachable cr'"

code_pred reachable .

text \<open>
  The invariant behind the mutual exclusion: while the status is \<open>inProgress\<close> exactly
  one continuation is outstanding, and none otherwise.
\<close>

definition one_at_a_time :: "ColdRedundancy \<Rightarrow> bool" where
  "one_at_a_time cr =
     (if coldRedundancyStatus cr = inProgress then length (outstanding cr) = 1
      else outstanding cr = [])"

text \<open>The calls made on the bus between two of its states.\<close>

definition new_calls :: "pmbus \<Rightarrow> pmbus \<Rightarrow> i2c_call list" where
  "new_calls hw hw' = drop (length (calls hw)) (calls hw')"

subsection \<open>The health classifier\<close>

text \<open>
  What the handler of \<open>puRedundantTimer\<close> sends out: a journal entry (named by its
  \<open>REDFISH_MESSAGE_ID\<close>) or a new value of the \<open>Associations\<close> property, which is the
  health class.
\<close>

datatype Associations =
  associationsOk | associationsWarning | associationsNonCrit | associationsCrit

datatype emission = journal string | set_property Associations

fun is_set_property :: "emission \<Rightarrow> bool" where
  "is_set_property (set_property a) = True"
| "is_set_property (journal m) = False"

definition checkRedundancyEvent :: "ColdRedundancy \<Rightarrow> ColdRedundancy" where
  "checkRedundancyEvent cr =
     (if \<not> crSupported cr \<or> \<not> powerSupplyRedundancyEnabled cr then cr
      else cr\<lparr>puRedundantTimer := Some 2\<rparr>)"

text \<open>
  The count of the handler, made in a \<open>uint8_t\<close>, and the value its \<open>static\<close> local
  holds when the handler runs.
\<close>

definition count_workable :: "PowerSupply list \<Rightarrow> u8" where
  "count_workable psus = fold (\<lambda>psu n. if state psu = normal then n + 1 else n) psus 0"

definition previous_workable :: "ColdRedundancy \<Rightarrow> u8" where
  "previous_workable cr =
     (case psuPreviousWorkable cr of None \<Rightarrow> numberOfPSU cr | Some n \<Rightarrow> n)"

definition checkRedundancyEvent_handler ::
  "error_code \<Rightarrow> ColdRedundancy \<Rightarrow> emission list \<times> ColdRedundancy" where
  "checkRedundancyEvent_handler ec cr =
     (if ec = operation_aborted then ([], cr)
      else
        (let psuWorkable = count_workable (powerSupplies cr);
             previous = previous_workable cr;
             sent =
               (if psuWorkable > previous then
                  (if psuWorkable \<ge> redundantCount cr then
                     (if psuWorkable = numberOfPSU cr then
                        [journal ''OpenBMC.0.1.PowerUnitRedundancyRegained'',
                         set_property associationsOk]
                      else if previous < redundantCount cr then
                        [journal ''OpenBMC.0.1.PowerUnitDegradedFromNonRedundant'',
                         set_property associationsWarning]
                      else [])
                   else if previous = 0 then
                     [journal ''OpenBMC.0.1.PowerUnitNonRedundantFromInsufficient'',
                      set_property associationsNonCrit]
                   else [])
                else if psuWorkable < previous then
                  (if psuWorkable \<ge> redundantCount cr then
                     [journal ''OpenBMC.0.1.PowerUnitRedundancyDegraded'',
                      set_property associationsWarning]
                     @ (if previous = numberOfPSU cr
                        then [journal ''OpenBMC.0.1.PowerUnitDegradedFromRedundant''] else [])
                   else
                     (if previous \<ge> redundantCount cr then
                        journal ''OpenBMC.0.1.PowerUnitRedundancyLost''
                        # (if psuWorkable > 0
                           then [journal ''OpenBMC.0.1.PowerUnitNonRedundantSufficient'',
                                 set_property associationsWarning]
                           else [])
                      else [])
                     @ (if psuWorkable = 0
                        then [journal ''OpenBMC.0.1.PowerUnitNonRedundantInsufficient'',
                              set_property associationsCrit]
                        else []))
                else [])
         in (sent, cr\<lparr>psuPreviousWorkable := Some psuWorkable\<rparr>)))"

subsection \<open>Configuration read at start-up and changed later\<close>

text \<open>
  The reply of the settings service, as the callback of the constructor reads it with
  \<open>std::get_if\<close>: \<open>None\<close> is the null pointer, and \<open>ec\<close> tells whether the call
  failed. \<open>minRotationPeriod\<close>, \<open>maxRotationPeriod\<close> and \<open>convertAlgoFromString\<close> are
  declared in headers that are not among the sources; they are parameters.
\<close>

record propMap =
  period :: "u32 option"
  redundancyEnabled :: "bool option"
  algorithm :: "string option"
  enabled :: "bool option"
  rankOrder :: "u8 list option"

definition readConfiguration ::
  "u32 \<Rightarrow> u32 \<Rightarrow> (string \<Rightarrow> Algo) \<Rightarrow> bool \<Rightarrow> propMap \<Rightarrow> ColdRedundancy \<Rightarrow> ColdRedundancy" where
  "readConfiguration minRotationPeriod maxRotationPeriod convertAlgoFromString ec m cr =
     (if ec then cr
      else if period m = None \<or> redundancyEnabled m = None \<or> algorithm m = None
              \<or> enabled m = None \<or> rankOrder m = None
      then cr
      else
        (let cr1 = (if the (period m) \<ge> minRotationPeriod \<and> the (period m) \<le> maxRotationPeriod
                    then cr\<lparr>periodOfRotation := the (period m)\<rparr> else cr);
             cr2 = cr1\<lparr>powerSupplyRedundancyEnabled := the (redundancyEnabled m),
                       rotationAlgorithm := convertAlgoFromString (the (algorithm m)),
                       rotationEnabled := the (enabled m),
                       rotationRankOrder := the (rankOrder m)\<rparr>
         in startRotateCR ((configCR False cr2)\<lparr>timerRotation := None\<rparr>)))"

text \<open>
  A policy-change notification carries a map from property names to values of
  \<open>std::variant<bool, uint8_t, uint32_t, std::string, std::vector<uint8_t>>\<close>; the
  map is the list of its entries in key order. \<open>refreshConfig\<close> takes the map as
  \<open>message.read\<close> has filled it.
\<close>

datatype variant =
  v_bool bool | v_uint8 u8 | v_uint32 u32 | v_string string | v_vector "u8 list"

fun assignRanks :: "u8 list \<Rightarrow> u8 \<Rightarrow> PowerSupply list \<Rightarrow> PowerSupply list" where
  "assignRanks pRank index [] = []"
| "assignRanks pRank index (psu # rest) =
     (if unat index < length pRank then psu\<lparr>order := pRank ! unat index\<rparr>
      else psu\<lparr>order := 0\<rparr>)
     # assignRanks pRank (index + 1) rest"

fun refreshConfig_loop :: "(string \<times> variant) list \<Rightarrow> ColdRedundancy \<Rightarrow> ColdRedundancy" where
  "refreshConfig_loop [] cr = cr"
| "refreshConfig_loop ((key, val) # rest) cr =
     (if key = ''RotationRankOrder''
      then (case val of
              v_vector pRank \<Rightarrow>
                configCR False (cr\<lparr>powerSupplies := assignRanks pRank 0 (powerSupplies cr)\<rparr>)
            | _ \<Rightarrow> refreshConfig_loop rest cr)
      else refreshConfig_loop rest cr)"

definition refreshConfig :: "(string \<times> variant) list \<Rightarrow> ColdRedundancy \<Rightarrow> ColdRedundancy" where
  "refreshConfig vals cr =
     refreshConfig_loop vals
       (startCRCheck ((startRotateCR (cr\<lparr>timerRotation := None\<rparr>))\<lparr>timerCheck := None\<rparr>))"

section \<open>Example fleets and states\<close>

definition example_psu :: "nat \<Rightarrow> u8 \<Rightarrow> PSUState \<Rightarrow> PowerSupply" where
  "example_psu n r s =
     \<lparr>name = ''PSU'', bus = of_nat (n div 256), address = of_nat n, order = r, state = s\<rparr>"

text \<open>A bus on which every call fails.\<close>

definition failing_bus :: pmbus where
  "failing_bus = \<lparr>replies = (\<lambda>n. \<lparr>ret = 1, readback = None\<rparr>), calls = []\<rparr>"

text \<open>An idle engine with redundancy enabled, for a given fleet.\<close>

definition engine :: "PowerSupply list \<Rightarrow> ColdRedundancy" where
  "engine psus =
     \<lparr>crSupported = True, numberOfPSU = of_nat (length psus),
      powerSupplyRedundancyEnabled = True, rotationEnabled = True,
      periodOfRotation = 604800, rotationAlgorithm = bmcSpecific,
      rotationRankOrder = [1, 2, 3, 4], coldRedundancyStatus = completed,
      redundantCount = 2, powerSupplies = psus, psuPreviousWorkable = None,
      hardware = failing_bus, warmRedundantTimer = None, cancelled = [],
      timerRotation = None, timerCheck = None, puRedundantTimer = None\<rparr>"

definition fleet4 :: "PowerSupply list" where
  "fleet4 = [example_psu 0 1 normal, example_psu 1 2 normal,
             example_psu 2 3 normal, example_psu 3 4 normal]"

definition fleet4_one_lost :: "PowerSupply list" where
  "fleet4_one_lost = [example_psu 0 1 normal, example_psu 1 2 acLost,
                      example_psu 2 3 normal, example_psu 3 4 normal]"

text \<open>255 supplies, all normal, holding the ranks 1 to 255 in fleet order.\<close>

definition fleet255 :: "PowerSupply list" where
  "fleet255 = map (\<lambda>n. example_psu n (of_nat (Suc n)) normal) [0..<255]"

text \<open>256 supplies, all normal and not ranked yet.\<close>

definition fleet256 :: "PowerSupply list" where
  "fleet256 = map (\<lambda>n. example_psu n 0 normal) [0..<256]"

text \<open>The same 256 supplies behind one that has lost its input.\<close>

definition fleet257_one_lost :: "PowerSupply list" where
  "fleet257_one_lost = example_psu 256 0 acLost # fleet256"

text \<open>257 supplies, none ranked.\<close>

definition fleet257 :: "PowerSupply list" where
  "fleet257 = map (\<lambda>n. example_psu n 0 normal) [0..<257]"

text \<open>
  One supply, found while it had no input and working now, where two are needed for
  redundancy.
\<close>

definition lone_supply :: ColdRedundancy where
  "lone_supply = (engine [example_psu 0 1 normal])\<lparr>psuPreviousWorkable := Some 0\<rparr>"

section \<open>The register access layer: retries\<close>

lemma writePmbus_body_writes:
  "writes_issued (snd (writePmbus_body b a v t hw)) = Suc (writes_issued hw)"
  by (simp add: writePmbus_body_def i2cSet_def i2cGet_def writes_issued_def Let_def)

lemma attempts_writes: "writes_issued (spec_attempts n b a v t hw) \<le> writes_issued hw + n"
proof (induction n arbitrary: t hw)
  case 0
  show ?case by simp
next
  case (Suc n)
  have "writes_issued (spec_attempts n b a v (fst (writePmbus_body b a v t hw))
                        (snd (writePmbus_body b a v t hw)))
        \<le> Suc (writes_issued hw) + n"
    using Suc.IH[of "fst (writePmbus_body b a v t hw)" "snd (writePmbus_body b a v t hw)"]
    by (simp add: writePmbus_body_writes)
  then show ?case by (simp add: writePmbus_body_writes)
qed

text \<open>
  From pass \<open>i\<close> on, the loop makes the passes that are left of
  \<open>retryCount + 1\<close> in all.
\<close>

lemma writePmbus_loop_attempts:
  "0 \<le> i \<Longrightarrow> i \<le> retryCount \<Longrightarrow>
   writePmbus_loop b a v i t hw = spec_attempts (Suc (nat (retryCount - i))) b a v t hw"
proof (induction b a v i t hw rule: writePmbus_loop.induct)
  case (1 b a v i t hw)
  let ?t = "fst (writePmbus_body b a v t hw)" and ?hw = "snd (writePmbus_body b a v t hw)"
  note unfold = writePmbus_loop.simps[of b a v i t hw]
  show ?case
  proof (cases "i < retryCount \<and> ?t \<noteq> uint v")
    case True
    then have n: "nat (retryCount - i) = Suc (nat (retryCount - (i + 1)))" by arith
    from True 1 have "writePmbus_loop b a v (i + 1) ?t ?hw
        = spec_attempts (Suc (nat (retryCount - (i + 1)))) b a v ?t ?hw" by simp
    with True n unfold show ?thesis by simp
  next
    case False
    show ?thesis
    proof (cases "?t = uint v")
      case True
      with unfold show ?thesis by simp
    next
      case unverified: False
      with False 1 have "nat (retryCount - i) = 0" by simp
      with False unfold show ?thesis by simp
    qed
  qed
qed

lemma writePmbus_attempts: "writePmbus b a v hw = spec_attempts 4 b a v (- 1) hw"
proof -
  have "writePmbus b a v hw = spec_attempts (Suc (nat (retryCount - 0))) b a v (- 1) hw"
    unfolding writePmbus_def by (rule writePmbus_loop_attempts) (simp_all add: retryCount_def)
  then show ?thesis by (simp add: retryCount_def eval_nat_numeral)
qed

text \<open>
  C5, as the code has it. \<open>writePmbus\<close> makes the first attempt and up to
  \<open>retryCount = 3\<close> retries: at most four write-then-verify attempts, ending as soon as
  the value read back is the value written, and never a fifth write.
\<close>

theorem writePmbus_four_attempts:
  "writePmbus b a v hw = spec_attempts 4 b a v (- 1) hw
   \<and> writes_issued (writePmbus b a v hw) \<le> writes_issued hw + 4"
  using attempts_writes[of 4 b a v "- 1" hw] by (simp add: writePmbus_attempts)

text \<open>
  C5 as stated fails: on a bus where every write fails, \<open>writePmbus\<close> issues a fourth
  write.
\<close>

theorem writePmbus_fourth_attempt:
  "writes_issued failing_bus = 0 \<and> writes_issued (writePmbus 7 88 1 failing_bus) = 4"
  by (simp add: writePmbus_def writePmbus_loop.simps failing_bus_def writePmbus_body_def
      i2cSet_def i2cGet_def writes_issued_def retryCount_def)

section \<open>Re-ranking\<close>

lemma reRanking_loop_only_order:
  "map (\<lambda>psu. psu\<lparr>order := 0\<rparr>) (fst (reRanking_loop i n os psus))
     = map (\<lambda>psu. psu\<lparr>order := 0\<rparr>) psus"
  by (induction psus arbitrary: i n os) (simp_all add: Let_def split_beta)

lemma reRanking_loop_not_normal:
  "psu \<in> set (fst (reRanking_loop i n os psus)) \<Longrightarrow> state psu \<noteq> normal \<Longrightarrow> order psu = 0"
  by (induction psus arbitrary: i n os) (auto simp: Let_def split_beta split: if_splits)

text \<open>
  The ranks handed to the normal supplies, in fleet order, are \<open>index\<close>,
  \<open>index + 1\<close>, ... computed in \<open>uint8_t\<close>.
\<close>

lemma reRanking_loop_normal_ranks:
  "map order (normalPSUs (fst (reRanking_loop i n os psus)))
     = map (\<lambda>k. i + of_nat k) [0..<length (normalPSUs psus)]"
proof (induction psus arbitrary: i n os)
  case Nil
  show ?case by (simp add: normalPSUs_def)
next
  case (Cons psu psus)
  have shift: "map (\<lambda>k. i + 1 + of_nat k) [0..<m] = map (\<lambda>k. i + of_nat k) [Suc 0..<Suc m]" for m
    by (simp add: map_Suc_upt[symmetric] del: upt_Suc)
  show ?case
    using Cons.IH[of "i + 1"] Cons.IH[of i]
    by (auto simp: Let_def split_beta normalPSUs_def shift upt_conv_Cons simp del: upt_Suc)
qed

lemma ranks_from_one:
  assumes "n \<le> 255"
  shows "map (\<lambda>k. unat (1 + of_nat k :: u8)) [0..<n] = [1..<Suc n]"
proof -
  have "map (\<lambda>k. unat (1 + of_nat k :: u8)) [0..<n] = map Suc [0..<n]"
  proof (rule map_cong[OF refl])
    fix k assume "k \<in> set [0..<n]"
    with assms have "k < 255" by simp
    then show "unat (1 + of_nat k :: u8) = Suc k"
      by (simp add: unat_word_ariths unat_of_nat)
  qed
  then show ?thesis by (simp add: map_Suc_upt)
qed

lemma reRanking_bmcSpecific_fleet:
  "rotationAlgorithm cr = bmcSpecific \<Longrightarrow>
   powerSupplies (reRanking cr)
     = fst (reRanking_loop 1 0 (rotationRankOrder cr) (powerSupplies cr))"
  by (simp add: reRanking.simps split_beta)

lemma reRanking_loop_contiguous:
  assumes "length (normalPSUs psus) \<le> 255"
  shows "map (\<lambda>psu. unat (order psu)) (normalPSUs (fst (reRanking_loop 1 n os psus)))
           = [1..<Suc (length (normalPSUs psus))]"
proof -
  let ?psus = "fst (reRanking_loop 1 n os psus)"
  have "map (\<lambda>psu. unat (order psu)) (normalPSUs ?psus)
          = map unat (map order (normalPSUs ?psus))" by simp
  also have "\<dots> = map (\<lambda>k. unat (1 + of_nat k :: u8)) [0..<length (normalPSUs psus)]"
    by (simp only: reRanking_loop_normal_ranks map_map comp_def)
  also have "\<dots> = [1..<Suc (length (normalPSUs psus))]"
    using assms by (rule ranks_from_one)
  finally show ?thesis .
qed

text \<open>
  C2, as the code has it. The rank counter is a \<open>uint8_t\<close>, so the claim needs a fleet
  with at most 255 normal supplies. Then re-ranking under \<open>bmcSpecific\<close> gives the normal
  supplies, in fleet order, the ranks 1, 2, ..., n with none skipped, gives every
  other supply rank 0, and changes nothing but ranks.
\<close>

theorem reRanking_bmcSpecific_contiguous:
  assumes "rotationAlgorithm cr = bmcSpecific"
    and "length (normalPSUs (powerSupplies cr)) \<le> 255"
  shows "map (\<lambda>psu. unat (order psu)) (normalPSUs (powerSupplies (reRanking cr)))
           = [1..<Suc (length (normalPSUs (powerSupplies cr)))]
       \<and> (\<forall>psu \<in> set (powerSupplies (reRanking cr)). state psu \<noteq> normal \<longrightarrow> order psu = 0)
       \<and> map (\<lambda>psu. psu\<lparr>order := 0\<rparr>) (powerSupplies (reRanking cr))
           = map (\<lambda>psu. psu\<lparr>order := 0\<rparr>) (powerSupplies cr)"
proof -
  have fleet: "powerSupplies (reRanking cr)
      = fst (reRanking_loop 1 0 (rotationRankOrder cr) (powerSupplies cr))"
    using assms(1) by (rule reRanking_bmcSpecific_fleet)
  have "\<forall>psu \<in> set (powerSupplies (reRanking cr)). state psu \<noteq> normal \<longrightarrow> order psu = 0"
    unfolding fleet using reRanking_loop_not_normal by blast
  then show ?thesis
    using reRanking_loop_contiguous[OF assms(2)] reRanking_loop_only_order
    by (simp add: fleet)
qed

theorem reRanking_bmcSpecific_contiguous_witness:
  "rotationAlgorithm (engine fleet4_one_lost) = bmcSpecific
   \<and> length (normalPSUs (powerSupplies (engine fleet4_one_lost))) \<le> 255
   \<and> map (\<lambda>psu. unat (order psu)) (normalPSUs (powerSupplies (reRanking (engine fleet4_one_lost))))
       = [1, 2, 3]
   \<and> map order (powerSupplies (reRanking (engine fleet4_one_lost))) = [1, 0, 2, 3]"
proof -
  have a: "rotationAlgorithm (engine fleet4_one_lost) = bmcSpecific"
    by (simp add: engine_def)
  have n: "length (normalPSUs (powerSupplies (engine fleet4_one_lost))) = 3"
    by (simp add: engine_def fleet4_one_lost_def example_psu_def normalPSUs_def)
  then have b: "length (normalPSUs (powerSupplies (engine fleet4_one_lost))) \<le> 255" by simp
  have "[1..<Suc 3] = [1, 2, 3]" by (simp add: upt_conv_Cons)
  then have c: "map (\<lambda>psu. unat (order psu))
          (normalPSUs (powerSupplies (reRanking (engine fleet4_one_lost)))) = [1, 2, 3]"
    using reRanking_bmcSpecific_contiguous[OF a b] n by simp
  have d: "map order (powerSupplies (reRanking (engine fleet4_one_lost))) = [1, 0, 2, 3]"
    by (simp add: reRanking.simps engine_def fleet4_one_lost_def example_psu_def)
  from a b c d show ?thesis by blast
qed

lemma fleet256_normal: "normalPSUs fleet256 = fleet256"
  by (simp add: normalPSUs_def fleet256_def example_psu_def filter_map comp_def)

text \<open>
  C2 as stated fails: in a fleet of 256 normal supplies the last one, though normal, is
  given rank 0, since the \<open>uint8_t\<close> counter has wrapped.
\<close>

theorem reRanking_bmcSpecific_wraps:
  "length (normalPSUs (powerSupplies (reRanking (engine fleet256)))) = 256
   \<and> order (normalPSUs (powerSupplies (reRanking (engine fleet256))) ! 255) = 0"
proof -
  let ?psus = "normalPSUs (powerSupplies (reRanking (engine fleet256)))"
  have fleet: "powerSupplies (reRanking (engine fleet256))
      = fst (reRanking_loop 1 0 [1, 2, 3, 4] fleet256)"
    using reRanking_bmcSpecific_fleet[of "engine fleet256"] by (simp add: engine_def)
  have n: "length (normalPSUs fleet256) = 256"
    by (simp add: fleet256_normal) (simp add: fleet256_def)
  have ranks: "map order ?psus = map (\<lambda>k. 1 + of_nat k) [0..<256]"
    unfolding fleet using reRanking_loop_normal_ranks[of 1 0 "[1, 2, 3, 4]" fleet256]
    by (simp only: n)
  then have "length (map order ?psus) = 256" by simp
  then have len: "length ?psus = 256" by simp
  have "map order ?psus ! 255 = (1 + of_nat 255 :: u8)"
    unfolding ranks by (subst nth_map) simp_all
  with len have "order (?psus ! 255) = (1 + of_nat 255 :: u8)" by simp
  with len show ?thesis by simp
qed

section \<open>Reconfigure and Rotate: the guard\<close>

lemma reRanking_keeps_settle_state:
  "coldRedundancyStatus (reRanking cr) = coldRedundancyStatus cr \<and>
   warmRedundantTimer (reRanking cr) = warmRedundantTimer cr \<and>
   cancelled (reRanking cr) = cancelled cr \<and>
   hardware (reRanking cr) = hardware cr"
proof (induction cr rule: reRanking.induct)
  case (1 cr)
  show ?case
  proof (cases "rotationAlgorithm cr = bmcSpecific")
    case True
    then show ?thesis by (simp add: reRanking.simps[of cr] split_beta)
  next
    case False
    show ?thesis
    proof (cases "list_ex (\<lambda>psu. state psu = acLost) (powerSupplies cr)")
      case True
      with False 1 show ?thesis by (simp add: reRanking.simps[of cr])
    next
      case healthy: False
      with False show ?thesis by (simp add: reRanking.simps[of cr])
    qed
  qed
qed

lemma settle_handler_completes:
  "coldRedundancyStatus (settle_handler h ec cr) = completed \<and>
   warmRedundantTimer (settle_handler h ec cr) = warmRedundantTimer cr \<and>
   cancelled (settle_handler h ec cr) = cancelled cr"
  by (cases h)
     (simp_all add: configCR_handler_def rotateCR_handler_def Let_def split_beta
        reRanking_keeps_settle_state)

lemma configCR_one_at_a_time: "one_at_a_time cr \<Longrightarrow> one_at_a_time (configCR b cr)"
  by (cases "coldRedundancyStatus cr"; cases "warmRedundantTimer cr")
     (simp_all add: one_at_a_time_def configCR_def outstanding_def armWarmRedundantTimer_def
        putWarmRedundant_def startCRCheck_def startRotateCR_def)

lemma rotateCR_one_at_a_time: "one_at_a_time cr \<Longrightarrow> one_at_a_time (rotateCR cr)"
  by (cases "coldRedundancyStatus cr"; cases "warmRedundantTimer cr")
     (simp_all add: one_at_a_time_def rotateCR_def outstanding_def armWarmRedundantTimer_def
        putWarmRedundant_def)

lemma reachable_one_at_a_time: "reachable cr \<Longrightarrow> one_at_a_time cr"
proof (induction rule: reachable.induct)
  case (constructed cr)
  then show ?case by (simp add: one_at_a_time_def outstanding_def)
next
  case (request_configCR cr reConfig)
  then show ?case by (simp add: configCR_one_at_a_time)
next
  case (request_rotateCR cr)
  then show ?case by (simp add: rotateCR_one_at_a_time)
next
  case (timer_completes cr h ec)
  then show ?case
    by (cases "coldRedundancyStatus cr")
       (simp_all add: one_at_a_time_def outstanding_def settle_handler_completes)
next
  case (cancelled_runs cr h hs)
  then show ?case
    by (cases "coldRedundancyStatus cr"; cases "warmRedundantTimer cr")
       (simp_all add: one_at_a_time_def outstanding_def settle_handler_completes)
next
  case (elsewhere cr cr')
  then have "outstanding cr' = outstanding cr" by (simp add: outstanding_def)
  with elsewhere show ?case by (simp add: one_at_a_time_def)
qed

text \<open>
  C1. A request made while redundancy is not supported, is disabled, or while the
  status is \<open>inProgress\<close> returns the engine as it was: the same status, the same
  ranks, the same list of calls on the bus, the same timers. Consequently, in every
  state the engine can reach at most one settle continuation (of \<open>configCR\<close> or of
  \<open>rotateCR\<close>) is outstanding, and one is exactly when the status is \<open>inProgress\<close>.
\<close>

theorem guarded_request_is_noop:
  "(\<not> crSupported cr \<or> \<not> powerSupplyRedundancyEnabled cr \<or> coldRedundancyStatus cr = inProgress
      \<longrightarrow> configCR reConfig cr = cr \<and> rotateCR cr = cr)
   \<and> (reachable cr
      \<longrightarrow> length (outstanding cr) \<le> 1
        \<and> (coldRedundancyStatus cr = inProgress) = (outstanding cr \<noteq> []))"
proof -
  have "length (outstanding cr) \<le> 1
      \<and> (coldRedundancyStatus cr = inProgress) = (outstanding cr \<noteq> [])"
    if "reachable cr"
    using reachable_one_at_a_time[OF that]
    by (cases "coldRedundancyStatus cr") (auto simp: one_at_a_time_def)
  then show ?thesis by (auto simp: configCR_def rotateCR_def)
qed

theorem guarded_request_is_noop_witness:
  "coldRedundancyStatus (configCR False (engine fleet4)) = inProgress
   \<and> reachable (configCR False (engine fleet4))
   \<and> configCR True (configCR False (engine fleet4)) = configCR False (engine fleet4)
   \<and> rotateCR (configCR False (engine fleet4)) = configCR False (engine fleet4)
   \<and> outstanding (configCR False (engine fleet4)) = [configCR_settle False]
   \<and> length (outstanding (configCR False (engine fleet4))) \<le> 1"
proof -
  let ?cr = "configCR False (engine fleet4)"
  have a: "coldRedundancyStatus ?cr = inProgress"
    by (simp add: configCR_def engine_def armWarmRedundantTimer_def putWarmRedundant_def
        startCRCheck_def startRotateCR_def)
  have "reachable (engine fleet4)"
    by (rule reachable.constructed) (simp_all add: engine_def)
  then have b: "reachable ?cr" by (rule reachable.request_configCR)
  have c: "outstanding ?cr = [configCR_settle False]"
    by (simp add: configCR_def engine_def armWarmRedundantTimer_def putWarmRedundant_def
        startCRCheck_def startRotateCR_def outstanding_def)
  from a b c guarded_request_is_noop[of ?cr True] show ?thesis by simp
qed

section \<open>Rotate: the settle step\<close>

lemma writePmbus_body_calls:
  "\<exists>ext. calls (snd (writePmbus_body b a v t hw)) = calls hw @ ext
         \<and> set (filter is_I2cSet ext) = {I2cSet b a v}"
  by (auto simp: writePmbus_body_def i2cSet_def i2cGet_def Let_def)

lemma attempts_calls:
  "\<exists>ext. calls (spec_attempts (Suc n) b a v t hw) = calls hw @ ext
         \<and> set (filter is_I2cSet ext) = {I2cSet b a v}"
proof (induction n arbitrary: t hw)
  case 0
  show ?case using writePmbus_body_calls[of b a v t hw] by simp
next
  case (Suc n)
  let ?t = "fst (writePmbus_body b a v t hw)" and ?hw = "snd (writePmbus_body b a v t hw)"
  obtain e1 where e1: "calls ?hw = calls hw @ e1" "set (filter is_I2cSet e1) = {I2cSet b a v}"
    using writePmbus_body_calls[of b a v t hw] by blast
  obtain e2 where e2: "calls (spec_attempts (Suc n) b a v ?t ?hw) = calls ?hw @ e2"
      "set (filter is_I2cSet e2) = {I2cSet b a v}"
    using Suc[of ?t ?hw] by blast
  show ?case
  proof (cases "?t = uint v")
    case True
    with e1 show ?thesis by simp
  next
    case False
    have "calls (spec_attempts (Suc (Suc n)) b a v t hw) = calls hw @ (e1 @ e2)"
      using False e1 e2 by simp
    moreover have "set (filter is_I2cSet (e1 @ e2)) = {I2cSet b a v}"
      using e1 e2 by simp
    ultimately show ?thesis by blast
  qed
qed

text \<open>
  \<open>writePmbus\<close> adds calls to the list and removes none, and every write among them
  is the write asked for.
\<close>

lemma writePmbus_calls:
  "\<exists>ext. calls (writePmbus b a v hw) = calls hw @ ext
         \<and> set (filter is_I2cSet ext) = {I2cSet b a v}"
proof -
  have "(4::nat) = Suc 3" by simp
  then show ?thesis
    unfolding writePmbus_attempts using attempts_calls[of 3 b a v "- 1" hw] by metis
qed

lemma rotateCR_loop_fleet:
  "fst (rotateCR_loop g psus hw)
     = map (\<lambda>psu. if order psu = 0 then psu else rotateCR_order g psu) psus"
  by (induction psus arbitrary: hw) (simp_all add: Let_def split_beta)

lemma rotateCR_order_place:
  "bus (rotateCR_order g psu) = bus psu \<and> address (rotateCR_order g psu) = address psu"
  by (simp add: rotateCR_order_def Let_def)

lemma rotateCR_order_rest: "(rotateCR_order g psu)\<lparr>order := 0\<rparr> = psu\<lparr>order := 0\<rparr>"
  by (simp add: rotateCR_order_def Let_def)

lemma rotateCR_loop_calls:
  "\<exists>ext. calls (snd (rotateCR_loop g psus hw)) = calls hw @ ext
         \<and> set (filter is_I2cSet ext)
             = (\<lambda>psu. I2cSet (bus psu) (address psu) (order (rotateCR_order g psu)))
                 ` {psu \<in> set psus. order psu \<noteq> 0}"
proof (induction psus arbitrary: hw)
  case Nil
  show ?case by simp
next
  case (Cons p psus)
  let ?f = "\<lambda>psu. I2cSet (bus psu) (address psu) (order (rotateCR_order g psu))"
  show ?case
  proof (cases "order p = 0")
    case True
    obtain e where "calls (snd (rotateCR_loop g psus hw)) = calls hw @ e"
      "set (filter is_I2cSet e) = ?f ` {psu \<in> set psus. order psu \<noteq> 0}"
      using Cons[of hw] by blast
    moreover have "{psu \<in> set (p # psus). order psu \<noteq> 0} = {psu \<in> set psus. order psu \<noteq> 0}"
      using True by auto
    ultimately show ?thesis using True by (simp add: split_beta)
  next
    case False
    let ?p = "rotateCR_order g p"
    let ?hw = "writePmbus (bus ?p) (address ?p) (order ?p) hw"
    obtain e1 where e1: "calls ?hw = calls hw @ e1"
      "set (filter is_I2cSet e1) = {I2cSet (bus ?p) (address ?p) (order ?p)}"
      using writePmbus_calls[of "bus ?p" "address ?p" "order ?p" hw] by blast
    obtain e2 where e2: "calls (snd (rotateCR_loop g psus ?hw)) = calls ?hw @ e2"
      "set (filter is_I2cSet e2) = ?f ` {psu \<in> set psus. order psu \<noteq> 0}"
      using Cons[of ?hw] by blast
    have s: "{psu \<in> set (p # psus). order psu \<noteq> 0}
        = insert p {psu \<in> set psus. order psu \<noteq> 0}"
      using False by auto
    have "calls (snd (rotateCR_loop g (p # psus) hw)) = calls hw @ (e1 @ e2)"
      using False e1 e2 by (simp add: Let_def split_beta)
    moreover have "set (filter is_I2cSet (e1 @ e2))
        = insert (?f p) (?f ` {psu \<in> set psus. order psu \<noteq> 0})"
      by (simp only: filter_append set_append e1(2) e2(2) rotateCR_order_place) simp
    moreover have "?f ` {psu \<in> set (p # psus). order psu \<noteq> 0}
        = insert (?f p) (?f ` {psu \<in> set psus. order psu \<noteq> 0})"
      unfolding s by simp
    ultimately show ?thesis by metis
  qed
qed

lemma goodPSUCount_fold:
  "fold (\<lambda>psu n. if state psu = normal then n + 1 else n) psus (k::int)
     = k + int (length (normalPSUs psus))"
  by (induction psus arbitrary: k) (simp_all add: normalPSUs_def)

lemma rotateCR_handler_fleet:
  "powerSupplies (rotateCR_handler success cr)
     = map (\<lambda>psu. if order psu = 0 then psu
                   else rotateCR_order (int (length (normalPSUs (powerSupplies cr)))) psu)
         (powerSupplies cr)"
  by (simp add: rotateCR_handler_def goodPSUCount_fold Let_def split_beta rotateCR_loop_fleet)

text \<open>The successor of a rank, where incrementing it cannot wrap.\<close>

lemma rotateCR_order_rank:
  assumes "order psu \<noteq> 0" and "unat (order psu) \<le> N" and "N \<le> 254"
  shows "unat (order (rotateCR_order (int N) psu))
           = (if unat (order psu) = N then 1 else unat (order psu) + 1)"
proof -
  have "unat (order psu) < 255" using assms by simp
  then have inc: "unat (order psu + 1) = unat (order psu) + 1"
    by (simp add: unat_word_ariths)
  have u: "uint (order psu + 1) = int (unat (order psu + 1))"
    by (simp only: uint_nat)
  show ?thesis
  proof (cases "unat (order psu) = N")
    case True
    with inc u have "uint (order psu + 1) > int N" by linarith
    with True show ?thesis by (simp add: rotateCR_order_def Let_def)
  next
    case False
    with assms have "unat (order psu) < N" by simp
    with inc u have "\<not> uint (order psu + 1) > int N" by linarith
    with False inc show ?thesis by (simp add: rotateCR_order_def Let_def)
  qed
qed

text \<open>
  Where \<open>order++\<close> cannot wrap, that is for \<open>N \<le> 254\<close>, the settle step of Rotate
  does what its comment says. In a fleet with \<open>N\<close> normal supplies whose ranks are 0 or
  lie in \<open>1..N\<close>, it takes rank \<open>r\<close> to \<open>r + 1\<close> and rank \<open>N\<close> to 1, leaves rank 0 and
  every other field alone, writes to the bus exactly the new ranks of the supplies that
  take part, each at its own bus and address, stores the ranks as the rank order and
  sets the status to \<open>completed\<close>.
\<close>

theorem rotateCR_cyclic_successor:
  assumes N: "N = length (normalPSUs (powerSupplies cr))"
    and small: "N \<le> 254"
    and ranks: "\<forall>psu \<in> set (powerSupplies cr). unat (order psu) \<le> N"
  shows "map (\<lambda>psu. unat (order psu)) (powerSupplies (rotateCR_handler success cr))
           = map (\<lambda>psu. if order psu = 0 then 0
                         else if unat (order psu) = N then 1 else unat (order psu) + 1)
               (powerSupplies cr)
       \<and> map (\<lambda>psu. psu\<lparr>order := 0\<rparr>) (powerSupplies (rotateCR_handler success cr))
           = map (\<lambda>psu. psu\<lparr>order := 0\<rparr>) (powerSupplies cr)
       \<and> set (filter is_I2cSet (new_calls (hardware cr) (hardware (rotateCR_handler success cr))))
           = (\<lambda>psu. I2cSet (bus psu) (address psu) (order psu))
               ` {psu \<in> set (powerSupplies (rotateCR_handler success cr)). order psu \<noteq> 0}
       \<and> rotationRankOrder (rotateCR_handler success cr)
           = map order (powerSupplies (rotateCR_handler success cr))
       \<and> coldRedundancyStatus (rotateCR_handler success cr) = completed"
proof -
  let ?ps = "powerSupplies cr" and ?g = "int N"
  let ?h = "\<lambda>psu. if order psu = 0 then psu else rotateCR_order ?g psu"
  let ?cr = "rotateCR_handler success cr"
  have g: "fold (\<lambda>psu n. if state psu = normal then n + 1 else n) ?ps (0::int) = ?g"
    by (simp add: goodPSUCount_fold N)
  have ps': "powerSupplies ?cr = map ?h ?ps"
    by (simp add: rotateCR_handler_fleet N)
  have hw': "hardware ?cr = snd (rotateCR_loop ?g ?ps (hardware cr))"
    by (simp add: rotateCR_handler_def g Let_def split_beta)
  have rank: "unat (order (?h psu))
      = (if order psu = 0 then 0 else if unat (order psu) = N then 1 else unat (order psu) + 1)"
    if "psu \<in> set ?ps" for psu
    using that ranks small rotateCR_order_rank[of psu N] by simp
  have nz: "order (rotateCR_order ?g psu) \<noteq> 0" if "psu \<in> set ?ps" "order psu \<noteq> 0" for psu
  proof
    assume "order (rotateCR_order ?g psu) = 0"
    then have "unat (order (rotateCR_order ?g psu)) = 0" by simp
    moreover have "unat (order (rotateCR_order ?g psu)) \<noteq> 0"
      using that ranks small rotateCR_order_rank[of psu N] by simp
    ultimately show False by simp
  qed
  have a: "map (\<lambda>psu. unat (order psu)) (powerSupplies ?cr)
      = map (\<lambda>psu. if order psu = 0 then 0
                    else if unat (order psu) = N then 1 else unat (order psu) + 1) ?ps"
    unfolding ps' map_map comp_def using rank by (intro map_cong refl)
  have b: "map (\<lambda>psu. psu\<lparr>order := 0\<rparr>) (powerSupplies ?cr) = map (\<lambda>psu. psu\<lparr>order := 0\<rparr>) ?ps"
    unfolding ps' map_map comp_def by (intro map_cong refl) (simp add: rotateCR_order_rest)
  obtain ext where ext: "calls (hardware ?cr) = calls (hardware cr) @ ext"
    "set (filter is_I2cSet ext)
       = (\<lambda>psu. I2cSet (bus psu) (address psu) (order (rotateCR_order ?g psu)))
           ` {psu \<in> set ?ps. order psu \<noteq> 0}"
    unfolding hw' using rotateCR_loop_calls[of ?g ?ps "hardware cr"] by blast
  have new: "new_calls (hardware cr) (hardware ?cr) = ext"
    by (simp add: new_calls_def ext(1))
  have sel: "{psu \<in> set (map ?h ?ps). order psu \<noteq> 0} = ?h ` {psu \<in> set ?ps. order psu \<noteq> 0}"
  proof (intro set_eqI iffI)
    fix x assume "x \<in> {psu \<in> set (map ?h ?ps). order psu \<noteq> 0}"
    then obtain psu where p: "psu \<in> set ?ps" "x = ?h psu" "order (?h psu) \<noteq> 0" by auto
    then have "order psu \<noteq> 0" by (cases "order psu = 0") simp_all
    with p show "x \<in> ?h ` {psu \<in> set ?ps. order psu \<noteq> 0}" by blast
  next
    fix x assume "x \<in> ?h ` {psu \<in> set ?ps. order psu \<noteq> 0}"
    then obtain psu where p: "psu \<in> set ?ps" "order psu \<noteq> 0" "x = ?h psu" by auto
    with nz[of psu] show "x \<in> {psu \<in> set (map ?h ?ps). order psu \<noteq> 0}" by auto
  qed
  have c: "set (filter is_I2cSet (new_calls (hardware cr) (hardware ?cr)))
      = (\<lambda>psu. I2cSet (bus psu) (address psu) (order psu))
          ` {psu \<in> set (powerSupplies ?cr). order psu \<noteq> 0}"
    unfolding new ext(2) ps' sel image_image
    by (intro image_cong refl) (simp add: rotateCR_order_place)
  have d: "rotationRankOrder ?cr = map order (powerSupplies ?cr)"
    by (simp add: rotateCR_handler_def Let_def split_beta)
  have e: "coldRedundancyStatus ?cr = completed"
    by (simp add: rotateCR_handler_def Let_def split_beta)
  from a b c d e show ?thesis by blast
qed

theorem rotateCR_cyclic_successor_example:
  "length (normalPSUs (powerSupplies (engine fleet4))) = 4
   \<and> map (\<lambda>psu. unat (order psu)) (powerSupplies (engine fleet4)) = [1, 2, 3, 4]
   \<and> map (\<lambda>psu. unat (order psu)) (powerSupplies (rotateCR_handler success (engine fleet4)))
       = [2, 3, 4, 1]
   \<and> coldRedundancyStatus (rotateCR_handler success (engine fleet4)) = completed"
proof -
  have n: "4 = length (normalPSUs (powerSupplies (engine fleet4)))"
    by (simp add: engine_def fleet4_def example_psu_def normalPSUs_def)
  have small: "(4::nat) \<le> 254" by simp
  have ranks: "\<forall>psu \<in> set (powerSupplies (engine fleet4)). unat (order psu) \<le> 4"
    by (simp add: engine_def fleet4_def example_psu_def)
  have before: "map (\<lambda>psu. unat (order psu)) (powerSupplies (engine fleet4)) = [1, 2, 3, 4]"
    by (simp add: engine_def fleet4_def example_psu_def)
  have orders: "map order (powerSupplies (engine fleet4)) = [1, 2, 3, 4]"
    by (simp add: engine_def fleet4_def example_psu_def)
  have "map (\<lambda>psu. if order psu = 0 then 0
                   else if unat (order psu) = 4 then 1 else unat (order psu) + 1)
          (powerSupplies (engine fleet4)) = [2, 3, 4, 1]"
    by (simp add: engine_def fleet4_def example_psu_def)
  with rotateCR_cyclic_successor[OF n small ranks] n before show ?thesis by simp
qed

lemma fleet255_ranks: "map (\<lambda>psu. unat (order psu)) fleet255 = [1..<256]"
proof -
  have "map (\<lambda>psu. unat (order psu)) fleet255 = map Suc [0..<255]"
    unfolding fleet255_def map_map comp_def
  proof (rule map_cong[OF refl])
    fix n assume "n \<in> set [0..<255]"
    then have "Suc n < 256" by simp
    then show "unat (order (example_psu n (of_nat (Suc n)) normal)) = Suc n"
      by (simp add: example_psu_def unat_of_nat del: of_nat_Suc)
  qed
  then show ?thesis by (simp add: map_Suc_upt)
qed

lemma fleet255_normal: "normalPSUs fleet255 = fleet255"
  by (simp add: normalPSUs_def fleet255_def example_psu_def filter_map comp_def)

text \<open>
  C3 says that one completed settle step of Rotate takes every rank to its cyclic
  successor, the last rank \<open>N\<close> to 1, as the comment above \<open>rotateCR\<close> does. At
  \<open>N = 255\<close> the code does not: all 255 supplies are normal and hold the ranks 1 to
  255, and the supply of rank 255 ends with rank 0, not 1, since \<open>order++\<close> wraps to
  0, which is not above \<open>goodPSUCount\<close>.
\<close>

theorem rotateCR_rank_255_wraps:
  "normalPSUs fleet255 = fleet255
   \<and> map (\<lambda>psu. unat (order psu)) fleet255 = [1..<256]
   \<and> order (last (powerSupplies (rotateCR_handler success (engine fleet255)))) = 0"
proof -
  let ?h = "\<lambda>psu. if order psu = 0 then psu else rotateCR_order 255 psu"
  have n: "int (length (normalPSUs fleet255)) = 255"
    by (simp add: fleet255_normal) (simp add: fleet255_def)
  have "powerSupplies (rotateCR_handler success (engine fleet255)) = map ?h fleet255"
    using rotateCR_handler_fleet[of "engine fleet255"] by (simp add: engine_def n)
  then have "last (powerSupplies (rotateCR_handler success (engine fleet255)))
      = ?h (example_psu 254 (of_nat 255) normal)"
    by (simp add: fleet255_def last_map)
  then have "order (last (powerSupplies (rotateCR_handler success (engine fleet255)))) = 0"
    by (simp add: example_psu_def rotateCR_order_def Let_def)
  with fleet255_normal fleet255_ranks show ?thesis by blast
qed

section \<open>Re-ranking: the fallback from \<open>userSpecific\<close>\<close>

lemma reRanking_fallback:
  assumes "rotationAlgorithm cr = userSpecific"
    and "\<exists>psu \<in> set (powerSupplies cr). state psu = acLost"
  shows "reRanking cr = reRanking (cr\<lparr>rotationAlgorithm := bmcSpecific\<rparr>)"
proof -
  have "list_ex (\<lambda>psu. state psu = acLost) (powerSupplies cr)"
    using assms(2) by (simp add: list_ex_iff)
  with assms(1) show ?thesis by (subst reRanking.simps) simp
qed

lemma reRanking_calls_fallback:
  assumes "rotationAlgorithm cr = userSpecific"
    and "\<exists>psu \<in> set (powerSupplies cr). state psu = acLost"
  shows "reRanking_calls cr = 2"
proof -
  have "list_ex (\<lambda>psu. state psu = acLost) (powerSupplies cr)"
    using assms(2) by (simp add: list_ex_iff)
  with assms(1) have "reRanking_calls cr
      = 1 + reRanking_calls (cr\<lparr>rotationAlgorithm := bmcSpecific\<rparr>)"
    by (subst reRanking_calls.simps) simp
  also have "reRanking_calls (cr\<lparr>rotationAlgorithm := bmcSpecific\<rparr>) = 1"
    by (subst reRanking_calls.simps) simp
  finally show ?thesis by simp
qed

text \<open>
  C4, as the code has it. With the algorithm \<open>userSpecific\<close> and a supply in state
  \<open>acLost\<close>, \<open>reRanking\<close> sets the algorithm to \<open>bmcSpecific\<close> and calls itself once:
  two calls in all, the second of which takes the \<open>bmcSpecific\<close> branch and returns.
  The result is the \<open>bmcSpecific\<close> ranking, which is contiguous and ascending from 1
  where at most 255 supplies are normal (the rank counter is a \<open>uint8_t\<close>).
\<close>

theorem reRanking_userSpecific_fallback:
  assumes "rotationAlgorithm cr = userSpecific"
    and "\<exists>psu \<in> set (powerSupplies cr). state psu = acLost"
    and "length (normalPSUs (powerSupplies cr)) \<le> 255"
  shows "rotationAlgorithm (reRanking cr) = bmcSpecific
       \<and> reRanking cr = reRanking (cr\<lparr>rotationAlgorithm := bmcSpecific\<rparr>)
       \<and> reRanking_calls cr = 2
       \<and> map (\<lambda>psu. unat (order psu)) (normalPSUs (powerSupplies (reRanking cr)))
           = [1..<Suc (length (normalPSUs (powerSupplies cr)))]
       \<and> (\<forall>psu \<in> set (powerSupplies (reRanking cr)). state psu \<noteq> normal \<longrightarrow> order psu = 0)
       \<and> map (\<lambda>psu. psu\<lparr>order := 0\<rparr>) (powerSupplies (reRanking cr))
           = map (\<lambda>psu. psu\<lparr>order := 0\<rparr>) (powerSupplies cr)"
proof -
  let ?cr = "cr\<lparr>rotationAlgorithm := bmcSpecific\<rparr>"
  have again: "reRanking cr = reRanking ?cr"
    using assms(1,2) by (rule reRanking_fallback)
  have algo: "rotationAlgorithm (reRanking ?cr) = bmcSpecific"
    by (subst reRanking.simps) (simp add: split_beta)
  have fleet: "powerSupplies (reRanking ?cr)
      = fst (reRanking_loop 1 0 (rotationRankOrder cr) (powerSupplies cr))"
    using reRanking_bmcSpecific_fleet[of ?cr] by simp
  have zero: "\<forall>psu \<in> set (powerSupplies (reRanking ?cr)). state psu \<noteq> normal \<longrightarrow> order psu = 0"
    unfolding fleet using reRanking_loop_not_normal by blast
  show ?thesis
    unfolding again
    using algo zero reRanking_calls_fallback[OF assms(1,2)]
      reRanking_loop_contiguous[OF assms(3)] reRanking_loop_only_order
    by (simp add: fleet)
qed

theorem reRanking_userSpecific_fallback_witness:
  "rotationAlgorithm ((engine fleet4_one_lost)\<lparr>rotationAlgorithm := userSpecific\<rparr>) = userSpecific
   \<and> rotationAlgorithm (reRanking ((engine fleet4_one_lost)\<lparr>rotationAlgorithm := userSpecific\<rparr>))
       = bmcSpecific
   \<and> reRanking_calls ((engine fleet4_one_lost)\<lparr>rotationAlgorithm := userSpecific\<rparr>) = 2
   \<and> map (\<lambda>psu. unat (order psu))
        (normalPSUs (powerSupplies
          (reRanking ((engine fleet4_one_lost)\<lparr>rotationAlgorithm := userSpecific\<rparr>))))
       = [1, 2, 3]"
proof -
  let ?cr = "(engine fleet4_one_lost)\<lparr>rotationAlgorithm := userSpecific\<rparr>"
  have a: "rotationAlgorithm ?cr = userSpecific" by simp
  have b: "\<exists>psu \<in> set (powerSupplies ?cr). state psu = acLost"
    by (simp add: engine_def fleet4_one_lost_def example_psu_def)
  have n: "length (normalPSUs (powerSupplies ?cr)) = 3"
    by (simp add: engine_def fleet4_one_lost_def example_psu_def normalPSUs_def)
  then have c: "length (normalPSUs (powerSupplies ?cr)) \<le> 255" by simp
  note fallback = reRanking_userSpecific_fallback[OF a b c]
  from fallback have d: "rotationAlgorithm (reRanking ?cr) = bmcSpecific" by blast
  from fallback have e: "reRanking_calls ?cr = 2" by blast
  from fallback have "map (\<lambda>psu. unat (order psu)) (normalPSUs (powerSupplies (reRanking ?cr)))
      = [1..<Suc (length (normalPSUs (powerSupplies ?cr)))]" by blast
  also have "\<dots> = [1, 2, 3]" by (simp only: n) (simp add: upt_conv_Cons)
  finally show ?thesis using a d e by blast
qed

text \<open>
  C4 as stated fails: with one supply in state \<open>acLost\<close> and 256 normal ones, the
  fallback runs and the last normal supply is given rank 0.
\<close>

theorem reRanking_userSpecific_wraps:
  "length (normalPSUs (powerSupplies
      (reRanking ((engine fleet257_one_lost)\<lparr>rotationAlgorithm := userSpecific\<rparr>)))) = 256
   \<and> order (normalPSUs (powerSupplies
      (reRanking ((engine fleet257_one_lost)\<lparr>rotationAlgorithm := userSpecific\<rparr>))) ! 255) = 0"
proof -
  let ?cr = "(engine fleet257_one_lost)\<lparr>rotationAlgorithm := userSpecific\<rparr>"
  let ?psus = "normalPSUs (powerSupplies (reRanking ?cr))"
  have "\<exists>psu \<in> set (powerSupplies ?cr). state psu = acLost"
    by (simp add: engine_def fleet257_one_lost_def example_psu_def)
  then have "reRanking ?cr = reRanking (?cr\<lparr>rotationAlgorithm := bmcSpecific\<rparr>)"
    by (intro reRanking_fallback) simp_all
  then have fleet: "powerSupplies (reRanking ?cr)
      = fst (reRanking_loop 1 0 [1, 2, 3, 4] fleet257_one_lost)"
    using reRanking_bmcSpecific_fleet[of "?cr\<lparr>rotationAlgorithm := bmcSpecific\<rparr>"]
    by (simp add: engine_def)
  have "normalPSUs fleet257_one_lost = normalPSUs fleet256"
    by (simp add: fleet257_one_lost_def normalPSUs_def example_psu_def)
  then have n: "length (normalPSUs fleet257_one_lost) = 256"
    by (simp add: fleet256_normal) (simp add: fleet256_def)
  have ranks: "map order ?psus = map (\<lambda>k. 1 + of_nat k) [0..<256]"
    unfolding fleet
    using reRanking_loop_normal_ranks[of 1 0 "[1, 2, 3, 4]" fleet257_one_lost]
    by (simp only: n)
  then have "length (map order ?psus) = 256" by simp
  then have len: "length ?psus = 256" by simp
  have "map order ?psus ! 255 = (1 + of_nat 255 :: u8)"
    unfolding ranks by (subst nth_map) simp_all
  with len have "order (?psus ! 255) = (1 + of_nat 255 :: u8)" by simp
  with len show ?thesis by simp
qed

section \<open>Reconfigure and Rotate: a cancelled or failed settle timer\<close>

text \<open>
  C8. When the settle timer is cancelled or reports an error, the continuation of
  \<open>configCR\<close> or of \<open>rotateCR\<close> sets the status to \<open>completed\<close> and does nothing else: no
  call is made on the bus and the fleet is as it was.
\<close>

theorem cancelled_settle_completes:
  assumes "ec \<noteq> success"
  shows "coldRedundancyStatus (settle_handler h ec cr) = completed
       \<and> new_calls (hardware cr) (hardware (settle_handler h ec cr)) = []
       \<and> powerSupplies (settle_handler h ec cr) = powerSupplies cr
       \<and> settle_handler h ec cr = cr\<lparr>coldRedundancyStatus := completed\<rparr>"
  using assms
  by (cases h) (simp_all add: configCR_handler_def rotateCR_handler_def new_calls_def)

theorem cancelled_settle_completes_witness:
  "operation_aborted \<noteq> success
   \<and> coldRedundancyStatus (configCR False (engine fleet4)) = inProgress
   \<and> coldRedundancyStatus
       (settle_handler (configCR_settle False) operation_aborted (configCR False (engine fleet4)))
       = completed
   \<and> new_calls (hardware (configCR False (engine fleet4)))
       (hardware (settle_handler (configCR_settle False) operation_aborted
          (configCR False (engine fleet4)))) = []"
proof -
  have a: "operation_aborted \<noteq> success" by simp
  have b: "coldRedundancyStatus (configCR False (engine fleet4)) = inProgress"
    by (simp add: configCR_def engine_def armWarmRedundantTimer_def putWarmRedundant_def
        startCRCheck_def startRotateCR_def)
  note aborted = cancelled_settle_completes[OF a,
      of "configCR_settle False" "configCR False (engine fleet4)"]
  from aborted have c: "coldRedundancyStatus
      (settle_handler (configCR_settle False) operation_aborted (configCR False (engine fleet4)))
      = completed" by blast
  from aborted have d: "new_calls (hardware (configCR False (engine fleet4)))
      (hardware (settle_handler (configCR_settle False) operation_aborted
         (configCR False (engine fleet4)))) = []" by blast
  from a b c d show ?thesis by blast
qed

section \<open>The health classifier\<close>

lemma count_workable_fold:
  "fold (\<lambda>psu n. if state psu = normal then n + 1 else n) psus (k::u8)
     = k + of_nat (length (normalPSUs psus))"
  by (induction psus arbitrary: k) (simp_all add: normalPSUs_def)

text \<open>The byte the handler counts in is the number of normal supplies modulo 256.\<close>

lemma count_workable_length:
  "count_workable psus = of_nat (length (normalPSUs psus))"
  by (simp add: count_workable_def count_workable_fold)

lemma count_workable_exact:
  assumes "length (normalPSUs psus) \<le> 255"
  shows "unat (count_workable psus) = length (normalPSUs psus)"
  using assms by (simp add: count_workable_length unat_of_nat)

text \<open>
  C6, as the code has it. The test for full redundancy stands inside the test
  \<open>psuWorkable >= redundantCount()\<close>, and the handler counts in a \<open>uint8_t\<close>. In a
  fleet of at most 255 supplies that \<open>numberOfPSU\<close> counts, when the number of normal
  supplies has risen above the previous count, equals the size of the fleet and is at
  least \<open>redundantCount\<close>, the handler reports that full redundancy is regained and
  sets the class \<open>associationsOk\<close>, and sends nothing else.
\<close>

theorem full_redundancy_regained:
  assumes "ec \<noteq> operation_aborted"
    and "length (powerSupplies cr) \<le> 255"
    and "numberOfPSU cr = of_nat (length (powerSupplies cr))"
    and "length (normalPSUs (powerSupplies cr)) > unat (previous_workable cr)"
    and "length (normalPSUs (powerSupplies cr)) = length (powerSupplies cr)"
    and "length (normalPSUs (powerSupplies cr)) \<ge> unat (redundantCount cr)"
  shows "fst (checkRedundancyEvent_handler ec cr)
           = [journal ''OpenBMC.0.1.PowerUnitRedundancyRegained'', set_property associationsOk]"
proof -
  have small: "length (normalPSUs (powerSupplies cr)) \<le> 255"
    using assms(2,5) by simp
  have exact: "unat (count_workable (powerSupplies cr)) = length (normalPSUs (powerSupplies cr))"
    using small by (rule count_workable_exact)
  have risen: "count_workable (powerSupplies cr) > previous_workable cr"
    using assms(4) exact by (simp add: word_less_nat_alt)
  have full: "count_workable (powerSupplies cr) = numberOfPSU cr"
    using assms(3,5) by (simp add: count_workable_length)
  have enough: "count_workable (powerSupplies cr) \<ge> redundantCount cr"
    using assms(6) exact by (simp add: word_le_nat_alt)
  from assms(1) risen full enough show ?thesis
    by (simp add: checkRedundancyEvent_handler_def Let_def)
qed

theorem full_redundancy_regained_witness:
  "length (powerSupplies ((engine fleet4)\<lparr>psuPreviousWorkable := Some 3\<rparr>)) = 4
   \<and> length (normalPSUs (powerSupplies ((engine fleet4)\<lparr>psuPreviousWorkable := Some 3\<rparr>))) = 4
   \<and> previous_workable ((engine fleet4)\<lparr>psuPreviousWorkable := Some 3\<rparr>) = 3
   \<and> numberOfPSU ((engine fleet4)\<lparr>psuPreviousWorkable := Some 3\<rparr>) = 4
   \<and> redundantCount ((engine fleet4)\<lparr>psuPreviousWorkable := Some 3\<rparr>) = 2
   \<and> fst (checkRedundancyEvent_handler success ((engine fleet4)\<lparr>psuPreviousWorkable := Some 3\<rparr>))
       = [journal ''OpenBMC.0.1.PowerUnitRedundancyRegained'', set_property associationsOk]"
proof -
  let ?cr = "(engine fleet4)\<lparr>psuPreviousWorkable := Some 3\<rparr>"
  have l: "length (powerSupplies ?cr) = 4" by (simp add: engine_def fleet4_def)
  have w: "length (normalPSUs (powerSupplies ?cr)) = 4"
    by (simp add: engine_def fleet4_def example_psu_def normalPSUs_def)
  have p: "previous_workable ?cr = 3" by (simp add: previous_workable_def)
  have n: "numberOfPSU ?cr = 4" by (simp add: engine_def fleet4_def)
  have r: "redundantCount ?cr = 2" by (simp add: engine_def)
  have e: "success \<noteq> operation_aborted" by simp
  have small: "length (powerSupplies ?cr) \<le> 255" using l by simp
  have counted: "numberOfPSU ?cr = of_nat (length (powerSupplies ?cr))"
    using l n by simp
  have risen: "length (normalPSUs (powerSupplies ?cr)) > unat (previous_workable ?cr)"
    using w p by simp
  have full: "length (normalPSUs (powerSupplies ?cr)) = length (powerSupplies ?cr)"
    using w l by simp
  have enough: "length (normalPSUs (powerSupplies ?cr)) \<ge> unat (redundantCount ?cr)"
    using w r by simp
  from l w p n r full_redundancy_regained[OF e small counted risen full enough]
  show ?thesis by blast
qed

text \<open>
  C6 as stated fails: the only supply of the fleet is normal, so the workable count
  has risen from 0 to 1 and equals the size of the fleet, but two are needed for
  redundancy, and the class sent is \<open>associationsNonCrit\<close>, not \<open>associationsOk\<close>.
\<close>

theorem full_fleet_below_redundantCount:
  "length (powerSupplies lone_supply) = 1
   \<and> length (normalPSUs (powerSupplies lone_supply)) = 1
   \<and> previous_workable lone_supply = 0
   \<and> count_workable (powerSupplies lone_supply) = 1
   \<and> numberOfPSU lone_supply = 1
   \<and> redundantCount lone_supply = 2
   \<and> fst (checkRedundancyEvent_handler success lone_supply)
       = [journal ''OpenBMC.0.1.PowerUnitNonRedundantFromInsufficient'',
          set_property associationsNonCrit]"
  by (simp add: lone_supply_def engine_def example_psu_def previous_workable_def normalPSUs_def
      count_workable_def checkRedundancyEvent_handler_def Let_def word_le_nat_alt)

text \<open>
  The bound on the fleet is needed: with 256 normal supplies and a previous count of 4
  the number of normal supplies has risen, equals the size of the fleet and is above
  \<open>redundantCount\<close>, but the byte count is 0 and the class sent is
  \<open>associationsCrit\<close>.
\<close>

lemma full_fleet_of_256_counts_zero:
  "length (normalPSUs (powerSupplies ((engine fleet256)\<lparr>psuPreviousWorkable := Some 4\<rparr>))) = 256
   \<and> length (powerSupplies ((engine fleet256)\<lparr>psuPreviousWorkable := Some 4\<rparr>)) = 256
   \<and> count_workable (powerSupplies ((engine fleet256)\<lparr>psuPreviousWorkable := Some 4\<rparr>)) = 0
   \<and> fst (checkRedundancyEvent_handler success ((engine fleet256)\<lparr>psuPreviousWorkable := Some 4\<rparr>))
       = [journal ''OpenBMC.0.1.PowerUnitRedundancyLost'',
          journal ''OpenBMC.0.1.PowerUnitNonRedundantInsufficient'',
          set_property associationsCrit]"
proof -
  let ?cr = "(engine fleet256)\<lparr>psuPreviousWorkable := Some 4\<rparr>"
  have l: "length fleet256 = 256" by (simp add: fleet256_def)
  have fleet: "powerSupplies ?cr = fleet256" by (simp add: engine_def)
  have n: "length (normalPSUs (powerSupplies ?cr)) = 256"
    by (simp only: fleet fleet256_normal l)
  have c: "count_workable (powerSupplies ?cr) = 0"
    by (simp only: count_workable_length n) simp
  have "fst (checkRedundancyEvent_handler success ?cr)
      = [journal ''OpenBMC.0.1.PowerUnitRedundancyLost'',
         journal ''OpenBMC.0.1.PowerUnitNonRedundantInsufficient'',
         set_property associationsCrit]"
    using c by (simp add: checkRedundancyEvent_handler_def Let_def previous_workable_def
        engine_def word_le_nat_alt)
  with n l fleet c show ?thesis by simp
qed

lemma at_most_one_class:
  "length (filter is_set_property (fst (checkRedundancyEvent_handler ec cr))) \<le> 1"
  unfolding checkRedundancyEvent_handler_def Let_def
  by (cases "count_workable (powerSupplies cr) = 0") (auto simp: word_greater_zero_iff)

text \<open>
  C7, as the code has it. Of two evaluations in a row that count the same number of
  workable supplies, the second sends nothing, neither a class nor a journal entry;
  the two together send at most one class, the one of the first evaluation, if it sent
  any. Each evaluation stores its count in \<open>psuPreviousWorkable\<close>.
\<close>

theorem second_evaluation_is_silent:
  assumes "ec1 \<noteq> operation_aborted" and "ec2 \<noteq> operation_aborted"
    and "psuPreviousWorkable cr2 = psuPreviousWorkable (snd (checkRedundancyEvent_handler ec1 cr1))"
    and "count_workable (powerSupplies cr2) = count_workable (powerSupplies cr1)"
  shows "fst (checkRedundancyEvent_handler ec2 cr2) = []
       \<and> length (filter is_set_property
            (fst (checkRedundancyEvent_handler ec1 cr1) @ fst (checkRedundancyEvent_handler ec2 cr2)))
           \<le> 1
       \<and> psuPreviousWorkable (snd (checkRedundancyEvent_handler ec1 cr1))
           = Some (count_workable (powerSupplies cr1))
       \<and> psuPreviousWorkable (snd (checkRedundancyEvent_handler ec2 cr2))
           = Some (count_workable (powerSupplies cr2))"
proof -
  have first: "psuPreviousWorkable (snd (checkRedundancyEvent_handler ec1 cr1))
      = Some (count_workable (powerSupplies cr1))"
    using assms(1) by (simp add: checkRedundancyEvent_handler_def Let_def)
  with assms(3,4) have "previous_workable cr2 = count_workable (powerSupplies cr2)"
    by (simp add: previous_workable_def)
  then have silent: "fst (checkRedundancyEvent_handler ec2 cr2) = []"
    by (simp add: checkRedundancyEvent_handler_def Let_def)
  have second: "psuPreviousWorkable (snd (checkRedundancyEvent_handler ec2 cr2))
      = Some (count_workable (powerSupplies cr2))"
    using assms(2) by (simp add: checkRedundancyEvent_handler_def Let_def)
  from first silent second at_most_one_class[of ec1 cr1] show ?thesis by simp
qed

theorem second_evaluation_is_silent_witness:
  "fst (checkRedundancyEvent_handler success ((engine fleet4_one_lost)\<lparr>numberOfPSU := 4\<rparr>))
     = [journal ''OpenBMC.0.1.PowerUnitRedundancyDegraded'', set_property associationsWarning,
        journal ''OpenBMC.0.1.PowerUnitDegradedFromRedundant'']
   \<and> fst (checkRedundancyEvent_handler success
        (snd (checkRedundancyEvent_handler success ((engine fleet4_one_lost)\<lparr>numberOfPSU := 4\<rparr>))))
     = []
   \<and> psuPreviousWorkable
        (snd (checkRedundancyEvent_handler success
          (snd (checkRedundancyEvent_handler success ((engine fleet4_one_lost)\<lparr>numberOfPSU := 4\<rparr>)))))
     = Some 3"
proof -
  let ?cr1 = "(engine fleet4_one_lost)\<lparr>numberOfPSU := 4\<rparr>"
  let ?cr2 = "snd (checkRedundancyEvent_handler success ?cr1)"
  have e: "success \<noteq> operation_aborted" by simp
  have fleet: "powerSupplies ?cr2 = powerSupplies ?cr1"
    by (simp add: checkRedundancyEvent_handler_def Let_def)
  then have same: "count_workable (powerSupplies ?cr2) = count_workable (powerSupplies ?cr1)"
    by simp
  have w: "count_workable (powerSupplies ?cr1) = 3"
    by (simp add: count_workable_def engine_def fleet4_one_lost_def example_psu_def)
  have w': "count_workable fleet4_one_lost = 3"
    using w by (simp add: engine_def)
  have first: "fst (checkRedundancyEvent_handler success ?cr1)
     = [journal ''OpenBMC.0.1.PowerUnitRedundancyDegraded'', set_property associationsWarning,
        journal ''OpenBMC.0.1.PowerUnitDegradedFromRedundant'']"
    by (simp add: checkRedundancyEvent_handler_def Let_def previous_workable_def engine_def w')
  note twice = second_evaluation_is_silent[OF e e refl same]
  from twice have silent: "fst (checkRedundancyEvent_handler success ?cr2) = []" by blast
  from twice have "psuPreviousWorkable (snd (checkRedundancyEvent_handler success ?cr2))
      = Some (count_workable (powerSupplies ?cr2))" by blast
  with same w have "psuPreviousWorkable (snd (checkRedundancyEvent_handler success ?cr2)) = Some 3"
    by simp
  with first silent show ?thesis by blast
qed

text \<open>
  C7 as stated fails: in a healthy fleet of four, evaluated twice from the start, the
  count is 4 both times, and the two evaluations together send no class at all, not
  one.
\<close>

theorem two_evaluations_no_class:
  "count_workable (powerSupplies (engine fleet4)) = 4
   \<and> count_workable (powerSupplies (snd (checkRedundancyEvent_handler success (engine fleet4)))) = 4
   \<and> filter is_set_property
        (fst (checkRedundancyEvent_handler success (engine fleet4))
         @ fst (checkRedundancyEvent_handler success
                 (snd (checkRedundancyEvent_handler success (engine fleet4))))) = []"
  by (simp add: engine_def fleet4_def example_psu_def previous_workable_def
      count_workable_def checkRedundancyEvent_handler_def Let_def)

section \<open>Configuration\<close>

lemma configCR_periodOfRotation: "periodOfRotation (configCR b cr) = periodOfRotation cr"
  by (simp add: configCR_def armWarmRedundantTimer_def putWarmRedundant_def
      startCRCheck_def startRotateCR_def)

text \<open>
  C9. The period read from the settings service is stored only when it lies between
  \<open>minRotationPeriod\<close> and \<open>maxRotationPeriod\<close> (and the reply is complete and came
  without error); otherwise the period held before is kept.
\<close>

theorem readConfiguration_period:
  "periodOfRotation (readConfiguration minRotationPeriod maxRotationPeriod conv ec m cr)
     = (if \<not> ec \<and> period m \<noteq> None \<and> redundancyEnabled m \<noteq> None \<and> algorithm m \<noteq> None
           \<and> enabled m \<noteq> None \<and> rankOrder m \<noteq> None
           \<and> minRotationPeriod \<le> the (period m) \<and> the (period m) \<le> maxRotationPeriod
        then the (period m) else periodOfRotation cr)"
  by (auto simp: readConfiguration_def Let_def startRotateCR_def configCR_periodOfRotation)

theorem readConfiguration_period_witness:
  "periodOfRotation (engine fleet4) = 604800
   \<and> periodOfRotation
       (readConfiguration 86400 3456000 (\<lambda>s. bmcSpecific) False
          \<lparr>period = Some 172800, redundancyEnabled = Some True, algorithm = Some ''BMCSpecific'',
           enabled = Some True, rankOrder = Some [1, 2, 3, 4]\<rparr> (engine fleet4)) = 172800
   \<and> periodOfRotation
       (readConfiguration 86400 3456000 (\<lambda>s. bmcSpecific) False
          \<lparr>period = Some 60, redundancyEnabled = Some True, algorithm = Some ''BMCSpecific'',
           enabled = Some True, rankOrder = Some [1, 2, 3, 4]\<rparr> (engine fleet4)) = 604800"
proof -
  have a: "periodOfRotation (engine fleet4) = 604800" by (simp add: engine_def)
  have b: "periodOfRotation
       (readConfiguration 86400 3456000 (\<lambda>s. bmcSpecific) False
          \<lparr>period = Some 172800, redundancyEnabled = Some True, algorithm = Some ''BMCSpecific'',
           enabled = Some True, rankOrder = Some [1, 2, 3, 4]\<rparr> (engine fleet4)) = 172800"
    by (subst readConfiguration_period) simp
  have c: "periodOfRotation
       (readConfiguration 86400 3456000 (\<lambda>s. bmcSpecific) False
          \<lparr>period = Some 60, redundancyEnabled = Some True, algorithm = Some ''BMCSpecific'',
           enabled = Some True, rankOrder = Some [1, 2, 3, 4]\<rparr> (engine fleet4)) = 604800"
    by (subst readConfiguration_period) (simp add: a)
  from a b c show ?thesis by blast
qed

lemma assignRanks_length: "length (assignRanks pRank i psus) = length psus"
  by (induction psus arbitrary: i) simp_all

text \<open>
  What the loop of the notification handler gives the supply at position \<open>k\<close>: the
  position as the \<open>uint8_t\<close> counter holds it decides.
\<close>

lemma assignRanks_nth:
  "k < length psus \<Longrightarrow>
   assignRanks pRank i psus ! k
     = (psus ! k)\<lparr>order := (if unat (i + of_nat k) < length pRank
                             then pRank ! unat (i + of_nat k) else 0)\<rparr>"
proof (induction psus arbitrary: i k)
  case Nil
  then show ?case by simp
next
  case (Cons psu psus)
  show ?case
  proof (cases k)
    case 0
    then show ?thesis by simp
  next
    case (Suc j)
    with Cons.prems have "j < length psus" by simp
    from Cons.IH[OF this, of "i + 1"] Suc show ?thesis by (simp add: add.assoc)
  qed
qed

lemma refreshConfig_loop_found:
  "map_of vals ''RotationRankOrder'' = Some (v_vector pRank) \<Longrightarrow>
   refreshConfig_loop vals cr
     = configCR False (cr\<lparr>powerSupplies := assignRanks pRank 0 (powerSupplies cr)\<rparr>)"
proof (induction vals)
  case Nil
  then show ?case by simp
next
  case (Cons kv vals)
  obtain key val where kv: "kv = (key, val)" by (cases kv)
  show ?case
  proof (cases "key = ''RotationRankOrder''")
    case True
    with Cons.prems kv have "val = v_vector pRank" by simp
    with True kv show ?thesis by simp
  next
    case False
    with Cons kv show ?thesis by simp
  qed
qed

lemma configCR_powerSupplies: "powerSupplies (configCR b cr) = powerSupplies cr"
  by (simp add: configCR_def armWarmRedundantTimer_def putWarmRedundant_def
      startCRCheck_def startRotateCR_def)

lemma refreshConfig_fleet:
  "map_of vals ''RotationRankOrder'' = Some (v_vector pRank) \<Longrightarrow>
   powerSupplies (refreshConfig vals cr) = assignRanks pRank 0 (powerSupplies cr)"
  by (simp add: refreshConfig_def refreshConfig_loop_found configCR_powerSupplies
      startCRCheck_def startRotateCR_def)

text \<open>
  C10, as the code has it. The position counter of the loop is a \<open>uint8_t\<close>, so the
  claim needs a fleet of at most 256 supplies. Then a notification that carries a
  rank order gives the supply at position \<open>k\<close> the \<open>k\<close>-th rank of the sequence, and
  rank 0 when the sequence is too short; no other field changes, and Reconfigure
  (\<open>configCR false\<close>) is called on the engine that holds these ranks.
\<close>

theorem refreshConfig_assigns_ranks:
  assumes "map_of vals ''RotationRankOrder'' = Some (v_vector pRank)"
    and "length (powerSupplies cr) \<le> 256"
  shows "length (powerSupplies (refreshConfig vals cr)) = length (powerSupplies cr)
       \<and> (\<forall>k < length (powerSupplies cr).
             powerSupplies (refreshConfig vals cr) ! k
               = (powerSupplies cr ! k)\<lparr>order := (if k < length pRank then pRank ! k else 0)\<rparr>)
       \<and> refreshConfig vals cr
           = configCR False
               ((startCRCheck ((startRotateCR (cr\<lparr>timerRotation := None\<rparr>))\<lparr>timerCheck := None\<rparr>))
                  \<lparr>powerSupplies := powerSupplies (refreshConfig vals cr)\<rparr>)"
proof -
  have fleet: "powerSupplies (refreshConfig vals cr) = assignRanks pRank 0 (powerSupplies cr)"
    using assms(1) by (rule refreshConfig_fleet)
  have len: "length (powerSupplies (refreshConfig vals cr)) = length (powerSupplies cr)"
    by (simp add: fleet assignRanks_length)
  have "powerSupplies (refreshConfig vals cr) ! k
      = (powerSupplies cr ! k)\<lparr>order := (if k < length pRank then pRank ! k else 0)\<rparr>"
    if "k < length (powerSupplies cr)" for k
  proof -
    from that assms(2) have "k < 256" by simp
    then have "unat (of_nat k :: u8) = k" by (simp add: unat_of_nat)
    with assignRanks_nth[OF that, of pRank 0] show ?thesis by (simp add: fleet)
  qed
  then have each: "\<forall>k < length (powerSupplies cr).
      powerSupplies (refreshConfig vals cr) ! k
        = (powerSupplies cr ! k)\<lparr>order := (if k < length pRank then pRank ! k else 0)\<rparr>"
    by blast
  have "refreshConfig vals cr
      = configCR False
          ((startCRCheck ((startRotateCR (cr\<lparr>timerRotation := None\<rparr>))\<lparr>timerCheck := None\<rparr>))
             \<lparr>powerSupplies := powerSupplies (refreshConfig vals cr)\<rparr>)"
    unfolding fleet using assms(1)
    by (simp add: refreshConfig_def refreshConfig_loop_found startCRCheck_def startRotateCR_def)
  with len each show ?thesis by blast
qed

theorem refreshConfig_assigns_ranks_witness:
  "map_of [(''RotationRankOrder'', v_vector [2, 1])] ''RotationRankOrder'' = Some (v_vector [2, 1])
   \<and> length (powerSupplies (engine fleet4)) = 4
   \<and> map order (powerSupplies (refreshConfig [(''RotationRankOrder'', v_vector [2, 1])] (engine fleet4)))
       = [2, 1, 0, 0]"
proof -
  let ?vals = "[(''RotationRankOrder'', v_vector [2, 1])]"
  let ?psus = "powerSupplies (refreshConfig ?vals (engine fleet4))"
  have a: "map_of ?vals ''RotationRankOrder'' = Some (v_vector [2, 1])" by simp
  have n: "length (powerSupplies (engine fleet4)) = 4" by (simp add: engine_def fleet4_def)
  then have b: "length (powerSupplies (engine fleet4)) \<le> 256" by simp
  note assigned = refreshConfig_assigns_ranks[OF a b]
  from assigned n have len: "length ?psus = 4" by simp
  from assigned n have each: "?psus ! k
      = (powerSupplies (engine fleet4) ! k)\<lparr>order := (if k < length [2, 1 :: u8] then [2, 1] ! k else 0)\<rparr>"
    if "k < 4" for k using that by simp
  have "map order ?psus = map (\<lambda>k. order (?psus ! k)) [0..<4]"
    using len by (simp add: list_eq_iff_nth_eq)
  also have "\<dots> = [2, 1, 0, 0]"
    by (simp add: upt_conv_Cons each)
  finally show ?thesis using a n by blast
qed

lemma fleet257_length: "length fleet257 = 257"
  by (simp add: fleet257_def)

text \<open>
  C10 as stated fails: with 257 supplies and the one-element sequence \<open>[7]\<close>, the
  supply at position 256 is given rank 7, not 0, since the counter has wrapped to 0.
\<close>

theorem refreshConfig_position_wraps:
  "length [7 :: u8] = 1
   \<and> length (powerSupplies (engine fleet257)) = 257
   \<and> order (powerSupplies
        (refreshConfig [(''RotationRankOrder'', v_vector [7])] (engine fleet257)) ! 256) = 7"
proof -
  have n: "length (powerSupplies (engine fleet257)) = 257"
    by (simp add: engine_def fleet257_length)
  have "powerSupplies (refreshConfig [(''RotationRankOrder'', v_vector [7])] (engine fleet257))
      = assignRanks [7] 0 (powerSupplies (engine fleet257))"
    by (rule refreshConfig_fleet) simp
  moreover have "assignRanks [7] 0 (powerSupplies (engine fleet257)) ! 256
      = (powerSupplies (engine fleet257) ! 256)\<lparr>order := 7\<rparr>"
    using assignRanks_nth[of 256 "powerSupplies (engine fleet257)" "[7]" 0] n by simp
  ultimately show ?thesis using n by simp
qed

end
